theory Spec2Isabelle
  imports Main "HOL-Library.Word"
begin

section \<open>Values, errors and collaborators\<close>

text \<open>
  The conversion code of \<^verbatim>\<open>seismic_zfp/convert.py\<close> and the diagonal read-back loop of
  \<^verbatim>\<open>examples/read-correlated-diagonal.py\<close>, as pure functions. Python integers are
  \<open>int\<close>, bytes are 8-bit words, a \<^verbatim>\<open>bytearray\<close> is a list of bytes, a numpy array of
  rank three is a list of planes, each a list of rows (traces), each a list of samples.
  Every exception the code can raise is a value of \<open>error\<close>; a computation that may raise
  returns \<open>error + 'a\<close> with \<open>Inl\<close> for the exception.
\<close>

type_synonym byte = "8 word"

datatype error =
    IndexError
  | OverflowError
  | ZeroDivisionError
  | ValueError
  | RuntimeError
  | NotImplementedError
  | SourceFormatError

definition bind_e :: "error + 'a \<Rightarrow> ('a \<Rightarrow> error + 'b) \<Rightarrow> error + 'b" where
  "bind_e m k = (case m of Inl e \<Rightarrow> Inl e | Inr v \<Rightarrow> k v)"

text \<open>\<^verbatim>\<open>n.to_bytes(4, byteorder='little')\<close>: raises OverflowError outside \<open>[0, 2^32)\<close>.\<close>

definition to_bytes4 :: "int \<Rightarrow> error + byte list" where
  "to_bytes4 n =
     (if n < 0 \<or> 4294967296 \<le> n then Inl OverflowError
      else Inr [word_of_int n, word_of_int (n div 256),
                word_of_int (n div 65536), word_of_int (n div 16777216)])"


text \<open>\<^verbatim>\<open>buffer[a:b] = v\<close> on a bytearray: the slice is replaced, whatever the length of \<open>v\<close>.\<close>

definition set_slice :: "nat \<Rightarrow> nat \<Rightarrow> 'a list \<Rightarrow> 'a list \<Rightarrow> 'a list" where
  "set_slice a b v buffer = take a buffer @ v @ drop (max a b) buffer"


text \<open>\<^verbatim>\<open>xs[i]\<close> for a constant index \<open>i \<ge> 0\<close> on a numpy array of rank one.\<close>

definition getitem :: "'a list \<Rightarrow> nat \<Rightarrow> error + 'a" where
  "getitem xs i = (if i < length xs then Inr (xs ! i) else Inl IndexError)"

text \<open>\<^verbatim>\<open>len(xs)\<close> as a Python integer.\<close>

definition len :: "'a list \<Rightarrow> int" where
  "len xs = int (length xs)"

subsection \<open>The source volume and its reader\<close>

text \<open>
  What the source file holds: the inline, crossline and sample coordinate lists and the
  traces, inline by inline (\<open>traces f ! i ! x\<close> is the trace at inline position \<open>i\<close> and
  crossline position \<open>x\<close>). Coordinates are of any type with a subtraction.
\<close>

record ('v, 'a) segy =
  ilines :: "'v list"
  xlines :: "'v list"
  samples :: "'v list"
  traces :: "'a list list list"

text \<open>An array of nested lists is rectangular, with the given numbers of rows and columns
  (of planes, rows and columns).\<close>

definition has_shape2 :: "'a list list \<Rightarrow> nat \<times> nat \<Rightarrow> bool" where
  "has_shape2 a shape \<longleftrightarrow>
     length a = fst shape \<and> list_all (\<lambda>row. length row = snd shape) a"

definition has_shape3 :: "'a list list list \<Rightarrow> nat \<times> nat \<times> nat \<Rightarrow> bool" where
  "has_shape3 a shape \<longleftrightarrow>
     length a = fst shape \<and> list_all (\<lambda>plane. has_shape2 plane (snd shape)) a"

text \<open>The geometry is consistent: there is one trace of \<open>length (samples f)\<close> samples for
  every pair of an inline and a crossline.\<close>

definition regular_geometry :: "('v, 'a) segy \<Rightarrow> bool" where
  "regular_geometry f \<longleftrightarrow>
     has_shape3 (traces f) (length (ilines f), length (xlines f), length (samples f))"

text \<open>
  Modelled from the spec: the source-format reader (\<^verbatim>\<open>segyio.open\<close>, an external
  collaborator whose code is not part of the repository). Section 6 of the spec: it
  exposes the inline, crossline and sample lists and per-inline trace arrays and must
  report malformed geometry; the report is the error \<open>SourceFormatError\<close>.
\<close>

definition segyio_open :: "('v, 'a) segy \<Rightarrow> error + ('v, 'a) segy" where
  "segyio_open in_file = (if regular_geometry in_file then Inr in_file else Inl SourceFormatError)"

text \<open>
  The collaborators the conversion calls: the block codec \<^verbatim>\<open>pyzfp.compress\<close>, the helper
  \<^verbatim>\<open>np_float_to_bytes\<close> of \<^verbatim>\<open>utils.py\<close> (not among the sources; it encodes one coordinate
  value in the four bytes of a float field, and the floating-point format itself is left
  to it), and \<^verbatim>\<open>psutil.virtual_memory()\<close>, which reports both the total and the
  available physical memory.
\<close>

record svmem =
  total :: int
  available :: int

record ('v, 'a) collaborators =
  compress :: "'a list list list \<Rightarrow> int \<Rightarrow> byte list"
  np_float_to_bytes :: "'v \<Rightarrow> byte list"
  virtual_memory :: svmem

section \<open>The header\<close>

definition DISK_BLOCK_BYTES :: int where
  "DISK_BLOCK_BYTES = 4096"

text \<open>\<^verbatim>\<open>make_header\<close>, statement by statement; the reads of the second coordinate of an
  axis raise IndexError when the axis has a single value.\<close>

definition make_header ::
  "('v::minus, 'a) collaborators \<Rightarrow> ('v, 'a) segy \<Rightarrow> int \<Rightarrow> error + byte list" where
  "make_header env in_file bits_per_voxel =
     (let header_blocks = 1;
          buffer0 = replicate (nat (DISK_BLOCK_BYTES * header_blocks)) (0 :: byte)
      in
      bind_e (to_bytes4 header_blocks) (\<lambda>b. let buffer1 = set_slice 0 4 b buffer0 in
      bind_e (segyio_open in_file) (\<lambda>segyfile.
      bind_e (to_bytes4 (len (samples segyfile))) (\<lambda>b. let buffer2 = set_slice 4 8 b buffer1 in
      bind_e (to_bytes4 (len (xlines segyfile))) (\<lambda>b. let buffer3 = set_slice 8 12 b buffer2 in
      bind_e (to_bytes4 (len (ilines segyfile))) (\<lambda>b. let buffer4 = set_slice 12 16 b buffer3 in
      bind_e (getitem (samples segyfile) 0) (\<lambda>s0.
        let buffer5 = set_slice 16 20 (np_float_to_bytes env s0) buffer4 in
      bind_e (getitem (xlines segyfile) 0) (\<lambda>x0.
        let buffer6 = set_slice 20 24 (np_float_to_bytes env x0) buffer5 in
      bind_e (getitem (ilines segyfile) 0) (\<lambda>i0.
        let buffer7 = set_slice 24 28 (np_float_to_bytes env i0) buffer6 in
      bind_e (getitem (samples segyfile) 1) (\<lambda>s1.
        let buffer8 = set_slice 28 32 (np_float_to_bytes env (s1 - s0)) buffer7 in
      bind_e (getitem (xlines segyfile) 1) (\<lambda>x1.
        let buffer9 = set_slice 32 36 (np_float_to_bytes env (x1 - x0)) buffer8 in
      bind_e (getitem (ilines segyfile) 1) (\<lambda>i1.
        let buffer10 = set_slice 36 40 (np_float_to_bytes env (i1 - i0)) buffer9 in
      bind_e (to_bytes4 bits_per_voxel) (\<lambda>b.
        Inr (set_slice 40 44 b buffer10))))))))))))))"

text \<open>
  The bytes of a complete header: the five integer fields already encoded, the six
  coordinate fields encoded by the collaborator, and the zero-filled rest of the block.
\<close>

definition header_bytes ::
  "('v::minus, 'a) collaborators \<Rightarrow> ('v, 'a) segy \<Rightarrow>
   byte list \<Rightarrow> byte list \<Rightarrow> byte list \<Rightarrow> byte list \<Rightarrow> byte list \<Rightarrow> byte list" where
  "header_bytes env f b0 bs bx bi bb =
     b0 @ bs @ bx @ bi @
     np_float_to_bytes env (samples f ! 0) @ np_float_to_bytes env (xlines f ! 0) @
     np_float_to_bytes env (ilines f ! 0) @
     np_float_to_bytes env (samples f ! 1 - samples f ! 0) @
     np_float_to_bytes env (xlines f ! 1 - xlines f ! 0) @
     np_float_to_bytes env (ilines f ! 1 - ilines f ! 0) @ bb @ replicate 4052 0"

section \<open>Padding and arrays\<close>

text \<open>
  Modelled from the spec: \<^verbatim>\<open>pad\<close> of \<^verbatim>\<open>utils.py\<close>, which is not among the sources.
  Section 4.2 of the spec: each dimension is rounded up to its required multiple. The
  remainder test of a zero multiple raises, as Python's \<^verbatim>\<open>%\<close> does.
\<close>

definition pad :: "int \<Rightarrow> int \<Rightarrow> error + int" where
  "pad orig multiple =
     (if multiple = 0 then Inl ZeroDivisionError
      else Inr (if orig mod multiple = 0 then orig else multiple * (orig div multiple + 1)))"

text \<open>\<^verbatim>\<open>a // b\<close>.\<close>

definition floordiv :: "int \<Rightarrow> int \<Rightarrow> error + int" where
  "floordiv a b = (if b = 0 then Inl ZeroDivisionError else Inr (a div b))"

text \<open>
  The tuple \<^verbatim>\<open>(pad(d0, 4), pad(d1, 4), pad(d2, 2048 // bits_per_voxel))\<close> that both
  \<^verbatim>\<open>convert_segy_inmem\<close> and \<^verbatim>\<open>produce\<close> build, evaluated left to right.
\<close>

definition padded_shape :: "int \<times> int \<times> int \<Rightarrow> int \<Rightarrow> error + int \<times> int \<times> int" where
  "padded_shape shape bits_per_voxel =
     (case shape of (d0, d1, d2) \<Rightarrow>
        bind_e (pad d0 4) (\<lambda>p0.
        bind_e (pad d1 4) (\<lambda>p1.
        bind_e (floordiv 2048 bits_per_voxel) (\<lambda>multiple.
        bind_e (pad d2 multiple) (\<lambda>p2. Inr (p0, p1, p2))))))"

text \<open>\<^verbatim>\<open>np.zeros(shape)\<close>: a negative dimension raises ValueError.\<close>

definition np_zeros3 :: "int \<times> int \<times> int \<Rightarrow> error + ('a::zero) list list list" where
  "np_zeros3 shape =
     (case shape of (d0, d1, d2) \<Rightarrow>
        if d0 < 0 \<or> d1 < 0 \<or> d2 < 0 then Inl ValueError
        else Inr (replicate (nat d0) (replicate (nat d1) (replicate (nat d2) 0))))"

text \<open>
  \<^verbatim>\<open>a.shape\<close>. Nested lists do not record the trailing dimensions of an array without
  planes or rows; they are read as 0 there.
\<close>

definition shape2 :: "'a list list \<Rightarrow> int \<times> int" where
  "shape2 a = (len a, case a of [] \<Rightarrow> 0 | row # _ \<Rightarrow> len row)"

definition shape3 :: "'a list list list \<Rightarrow> int \<times> int \<times> int" where
  "shape3 a = (len a, case a of [] \<Rightarrow> (0, 0) | plane # _ \<Rightarrow> shape2 plane)"

text \<open>
  \<^verbatim>\<open>plane[0:n1, 0:n2] = data\<close>. numpy raises ValueError when \<open>data\<close> does not have the
  shape of the addressed region; a region reaching outside the array and the
  broadcasting of an axis of length one are treated as a mismatch.
\<close>

definition fits2 :: "nat \<Rightarrow> nat \<Rightarrow> 'a list list \<Rightarrow> 'a list list \<Rightarrow> bool" where
  "fits2 n1 n2 data plane \<longleftrightarrow>
     has_shape2 data (n1, n2) \<and>
     n1 \<le> length plane \<and> list_all (\<lambda>row. n2 \<le> length row) (take n1 plane)"

definition overlay2 :: "nat \<Rightarrow> 'a list list \<Rightarrow> 'a list list \<Rightarrow> 'a list list" where
  "overlay2 n2 data plane =
     map2 (\<lambda>src row. src @ drop n2 row) data plane @ drop (length data) plane"

definition assign2 :: "nat \<Rightarrow> nat \<Rightarrow> 'a list list \<Rightarrow> 'a list list \<Rightarrow> error + 'a list list" where
  "assign2 n1 n2 data plane =
     (if fits2 n1 n2 data plane then Inr (overlay2 n2 data plane) else Inl ValueError)"

text \<open>\<^verbatim>\<open>cube[0:n0, 0:n1, 0:n2] = data\<close>.\<close>

definition fits3 ::
  "nat \<Rightarrow> nat \<Rightarrow> nat \<Rightarrow> 'a list list list \<Rightarrow> 'a list list list \<Rightarrow> bool" where
  "fits3 n0 n1 n2 data cube \<longleftrightarrow>
     length data = n0 \<and> n0 \<le> length cube \<and> list_all2 (fits2 n1 n2) data (take n0 cube)"

definition overlay3 :: "nat \<Rightarrow> 'a list list list \<Rightarrow> 'a list list list \<Rightarrow> 'a list list list" where
  "overlay3 n2 data cube = map2 (overlay2 n2) data cube @ drop (length data) cube"

definition assign3 ::
  "nat \<Rightarrow> nat \<Rightarrow> nat \<Rightarrow> 'a list list list \<Rightarrow> 'a list list list \<Rightarrow> error + 'a list list list" where
  "assign3 n0 n1 n2 data cube =
     (if fits3 n0 n1 n2 data cube then Inr (overlay3 n2 data cube) else Inl ValueError)"

text \<open>\<^verbatim>\<open>range(n)\<close>.\<close>

definition range_py :: "int \<Rightarrow> nat list" where
  "range_py n = [0..<nat n]"

text \<open>A \<^verbatim>\<open>for\<close> loop whose body may raise.\<close>

fun for_each :: "('s \<Rightarrow> 'i \<Rightarrow> error + 's) \<Rightarrow> 'i list \<Rightarrow> 's \<Rightarrow> error + 's" where
  "for_each body [] s = Inr s"
| "for_each body (i # rest) s = bind_e (body s i) (for_each body rest)"

section \<open>The output file\<close>

type_synonym files = "string \<Rightarrow> byte list option"

text \<open>\<^verbatim>\<open>open(name, 'wb')\<close> creates or truncates; \<^verbatim>\<open>f.write\<close> appends.\<close>

definition open_wb :: "string \<Rightarrow> files \<Rightarrow> files" where
  "open_wb name fs = fs(name \<mapsto> [])"

definition write_file :: "string \<Rightarrow> byte list \<Rightarrow> files \<Rightarrow> files" where
  "write_file name bytes fs = fs(name \<mapsto> (case fs name of None \<Rightarrow> bytes | Some old \<Rightarrow> old @ bytes))"

section \<open>Whole-volume conversion\<close>

text \<open>\<^verbatim>\<open>segyio.tools.cube\<close>: opens the file and returns all traces as one array.\<close>

definition segyio_tools_cube :: "('v, 'a) segy \<Rightarrow> error + 'a list list list" where
  "segyio_tools_cube in_file = bind_e (segyio_open in_file) (\<lambda>segyfile. Inr (traces segyfile))"

text \<open>The statements of \<^verbatim>\<open>convert_segy_inmem\<close> up to the opening of the output file;
  the result is the header and the compressed payload.\<close>

definition inmem_prepare ::
  "('v::minus, 'a::zero) collaborators \<Rightarrow> ('v, 'a) segy \<Rightarrow> int \<Rightarrow> error + byte list \<times> byte list" where
  "inmem_prepare env in_file bits_per_voxel =
     bind_e (segyio_open in_file) (\<lambda>segyfile.
       let cube_bytes = len (samples segyfile) * len (xlines segyfile) * len (ilines segyfile) * 4 in
       if cube_bytes > total (virtual_memory env) then Inl RuntimeError
       else
       bind_e (make_header env in_file bits_per_voxel) (\<lambda>header.
       bind_e (segyio_tools_cube in_file) (\<lambda>data.
       case shape3 data of (d0, d1, d2) \<Rightarrow>
       bind_e (padded_shape (d0, d1, d2) bits_per_voxel) (\<lambda>padded.
       bind_e (np_zeros3 padded) (\<lambda>zeros.
       bind_e (assign3 (nat d0) (nat d1) (nat d2) data zeros) (\<lambda>data_padded.
         Inr (header, compress env data_padded bits_per_voxel)))))))"

definition convert_segy_inmem ::
  "('v::minus, 'a::zero) collaborators \<Rightarrow> ('v, 'a) segy \<Rightarrow> string \<Rightarrow> int \<Rightarrow> files
   \<Rightarrow> error option \<times> files" where
  "convert_segy_inmem env in_file out_filename bits_per_voxel fs =
     (case inmem_prepare env in_file bits_per_voxel of
        Inl e \<Rightarrow> (Some e, fs)
      | Inr (header, compressed) \<Rightarrow>
          (None, write_file out_filename compressed (write_file out_filename header (open_wb out_filename fs))))"

section \<open>Streaming conversion\<close>

text \<open>
  \<^verbatim>\<open>segyfile.iline[segyfile.ilines[k]]\<close>: the line number at position \<open>k\<close> is read
  (IndexError past the end) and the reader returns the slice of that line, which is the
  plane at position \<open>k\<close>.
\<close>

definition iline_at :: "('v, 'a) segy \<Rightarrow> nat \<Rightarrow> error + 'a list list" where
  "iline_at segyfile k =
     bind_e (getitem (ilines segyfile) k) (\<lambda>line_number. getitem (traces segyfile) k)"

text \<open>The statements of \<^verbatim>\<open>produce\<close> before its loop: the reader's handle, \<open>n_ilines\<close>,
  \<open>n_xlines\<close>, \<open>trace_length\<close> and \<open>padded_shape\<close>.\<close>

definition produce_setup ::
  "('v, 'a) segy \<Rightarrow> int \<Rightarrow> error + ('v, 'a) segy \<times> int \<times> int \<times> int \<times> (int \<times> int \<times> int)" where
  "produce_setup in_file bits_per_voxel =
     bind_e (segyio_open in_file) (\<lambda>segyfile.
     bind_e (iline_at segyfile 0) (\<lambda>test_slice.
       let trace_length = snd (shape2 test_slice);
           n_xlines = len (xlines segyfile);
           n_ilines = len (ilines segyfile)
       in
       bind_e (padded_shape (n_ilines, n_xlines, trace_length) bits_per_voxel) (\<lambda>padded.
         Inr (segyfile, n_ilines, n_xlines, trace_length, padded))))"

text \<open>One pass of the loop of \<^verbatim>\<open>produce\<close>: the buffer built for \<open>plane_set_id\<close>, which is
  then put in the queue.\<close>

definition read_plane_set ::
  "('v, 'a::zero) segy \<Rightarrow> int \<Rightarrow> int \<Rightarrow> int \<Rightarrow> int \<times> int \<times> int \<Rightarrow> nat
   \<Rightarrow> error + 'a list list list" where
  "read_plane_set segyfile n_ilines n_xlines trace_length padded plane_set_id =
     (case padded of (p0, p1, p2) \<Rightarrow>
        bind_e (np_zeros3 (4, p1, p2)) (\<lambda>segy_buffer.
          let planes_to_read =
                (if (int plane_set_id + 1) * 4 > n_ilines then n_ilines mod 4 else 4)
          in
          for_each
            (\<lambda>buffer i.
               bind_e (iline_at segyfile (plane_set_id * 4 + i)) (\<lambda>data.
               bind_e (getitem buffer i) (\<lambda>plane.
               bind_e (assign2 (nat n_xlines) (nat trace_length) data plane) (\<lambda>assigned.
                 Inr (buffer[i := assigned])))))
            (range_py planes_to_read) segy_buffer))"

text \<open>
  The event loop running \<^verbatim>\<open>produce\<close> and \<^verbatim>\<open>consume\<close>. A coroutine runs until it has
  to wait: the producer when the queue holds 16 buffers (\<^verbatim>\<open>queue.put\<close>) or, after its
  last buffer, in \<^verbatim>\<open>queue.join()\<close> while buffers are pending; the consumer, which opens
  the output file and writes the header when it first runs, when the queue is empty
  (\<^verbatim>\<open>queue.get\<close>). The state records who runs, the producer's loop counter, the queue,
  every buffer put in the queue, every buffer given to the codec, the files on disk and
  the exception that ended the run, if any.
\<close>

datatype coroutine = Producer | Consumer

record 'b loop_state =
  running :: coroutine
  plane_set_id :: nat
  queue :: "'b list"
  consumer_started :: bool
  enqueued :: "'b list"
  compressed :: "'b list"
  disk :: files
  raised :: "error option"

definition loop_measure :: "nat \<Rightarrow> 'b loop_state \<Rightarrow> nat" where
  "loop_measure n s =
     6 * (n - plane_set_id s) + 2 * length (queue s) +
     (case running s of
        Consumer \<Rightarrow> (if consumer_started s then 1 else 2)
      | Producer \<Rightarrow> (if queue s = [] then 0 else 3))"

function event_loop ::
  "(nat \<Rightarrow> error + 'b) \<Rightarrow> ('b \<Rightarrow> byte list) \<Rightarrow> byte list \<Rightarrow> string \<Rightarrow> nat
   \<Rightarrow> 'b loop_state \<Rightarrow> 'b loop_state" where
  "event_loop produce_one compress_one header out_filename n s =
     (case running s of
        Producer \<Rightarrow>
          if plane_set_id s < n then
            (case produce_one (plane_set_id s) of
               Inl e \<Rightarrow> s\<lparr>raised := Some e\<rparr>
             | Inr segy_buffer \<Rightarrow>
                 if length (queue s) < 16 then
                   event_loop produce_one compress_one header out_filename n
                     (s\<lparr>plane_set_id := plane_set_id s + 1,
                        queue := queue s @ [segy_buffer],
                        enqueued := enqueued s @ [segy_buffer]\<rparr>)
                 else
                   event_loop produce_one compress_one header out_filename n
                     (s\<lparr>running := Consumer\<rparr>))
          else if queue s \<noteq> [] then
            event_loop produce_one compress_one header out_filename n (s\<lparr>running := Consumer\<rparr>)
          else s
      | Consumer \<Rightarrow>
          if \<not> consumer_started s then
            event_loop produce_one compress_one header out_filename n
              (s\<lparr>consumer_started := True,
                 disk := write_file out_filename header (open_wb out_filename (disk s))\<rparr>)
          else
            (case queue s of
               [] \<Rightarrow> event_loop produce_one compress_one header out_filename n (s\<lparr>running := Producer\<rparr>)
             | segy_buffer # rest \<Rightarrow>
                 event_loop produce_one compress_one header out_filename n
                   (s\<lparr>queue := rest,
                      compressed := compressed s @ [segy_buffer],
                      disk := write_file out_filename (compress_one segy_buffer) (disk s)\<rparr>)))"
  by pat_completeness auto
termination
  by (relation "measure (\<lambda>(produce_one, compress_one, header, out_filename, n, s). loop_measure n s)")
    (auto simp: loop_measure_def)

declare event_loop.simps [simp del]

text \<open>\<^verbatim>\<open>run\<close>: the header is made before the consumer is scheduled, and the consumer does
  not run before the producer first waits.\<close>

definition run ::
  "('v::minus, 'a::zero) collaborators \<Rightarrow> ('v, 'a) segy \<Rightarrow> string \<Rightarrow> int \<Rightarrow> files
   \<Rightarrow> 'a list list list loop_state" where
  "run env in_file out_filename bits_per_voxel fs =
     (let idle = \<lparr>running = Producer, plane_set_id = 0, queue = [], consumer_started = False,
                  enqueued = [], compressed = [], disk = fs, raised = None\<rparr>
      in
      case make_header env in_file bits_per_voxel of
        Inl e \<Rightarrow> idle\<lparr>raised := Some e\<rparr>
      | Inr header \<Rightarrow>
          (case produce_setup in_file bits_per_voxel of
             Inl e \<Rightarrow> idle\<lparr>raised := Some e\<rparr>
           | Inr (segyfile, n_ilines, n_xlines, trace_length, padded) \<Rightarrow>
               event_loop (read_plane_set segyfile n_ilines n_xlines trace_length padded)
                 (\<lambda>segy_buffer. compress env segy_buffer bits_per_voxel)
                 header out_filename (nat (fst padded div 4)) idle))"

definition convert_segy_stream ::
  "('v::minus, 'a::zero) collaborators \<Rightarrow> ('v, 'a) segy \<Rightarrow> string \<Rightarrow> int \<Rightarrow> files
   \<Rightarrow> error option \<times> files" where
  "convert_segy_stream env in_file out_filename bits_per_voxel fs =
     (let final = run env in_file out_filename bits_per_voxel fs in (raised final, disk final))"

section \<open>The entry point\<close>


section \<open>Correlated diagonals\<close>

text \<open>
  Modelled from the spec: \<^verbatim>\<open>get_correlated_diagonal_length\<close> of \<^verbatim>\<open>utils.py\<close>, which is not
  among the sources. Section 4.4 of the spec: \<open>min(I - l, X)\<close> when \<open>l \<ge> 0\<close>,
  \<open>min(I, X + l)\<close> when \<open>l < 0\<close>.
\<close>

definition get_correlated_diagonal_length :: "int \<Rightarrow> int \<Rightarrow> int \<Rightarrow> int" where
  "get_correlated_diagonal_length l n_il n_xl =
     (if l \<ge> 0 then min (n_il - l) n_xl else min n_il (n_xl + l))"

text \<open>
  The loop of the example script that rebuilds diagonal \<open>l\<close> from the source file: the
  trace numbers it reads, in the order it reads them. Allocating the slice raises
  ValueError for a negative length.
\<close>

definition diagonal_traces :: "int \<Rightarrow> int \<Rightarrow> int \<Rightarrow> error + int list" where
  "diagonal_traces l n_il n_xl =
     (let diagonal_length = get_correlated_diagonal_length l n_il n_xl in
      if diagonal_length < 0 then Inl ValueError
      else if l \<ge> 0 then Inr (map (\<lambda>d. (int d + l) * n_xl + int d) (range_py diagonal_length))
      else Inr (map (\<lambda>d. int d * n_xl + int d - l) (range_py diagonal_length)))"

text \<open>The grid position (inline, crossline) of trace number \<open>t\<close> in a file of \<open>n_xl\<close>
  crosslines stored inline by inline.\<close>

definition trace_position :: "int \<Rightarrow> int \<Rightarrow> int \<times> int" where
  "trace_position n_xl t = (t div n_xl, t mod n_xl)"

section \<open>Notions used to state the properties\<close>

text \<open>A trace, a plane and a volume with zero samples appended along each axis up to the
  given sizes.\<close>

definition pad_trace :: "nat \<Rightarrow> ('a::zero) list \<Rightarrow> 'a list" where
  "pad_trace n2 row = row @ replicate (n2 - length row) 0"

definition pad_plane :: "nat \<Rightarrow> nat \<Rightarrow> ('a::zero) list list \<Rightarrow> 'a list list" where
  "pad_plane n1 n2 plane = map (pad_trace n2) plane @ replicate (n1 - length plane) (replicate n2 0)"

definition pad_volume ::
  "nat \<Rightarrow> nat \<Rightarrow> nat \<Rightarrow> ('a::zero) list list list \<Rightarrow> 'a list list list" where
  "pad_volume n0 n1 n2 volume =
     map (pad_plane n1 n2) volume @ replicate (n0 - length volume) (replicate n1 (replicate n2 0))"


text \<open>The bytes of a file, empty when the file does not exist.\<close>

definition file_content :: "string \<Rightarrow> files \<Rightarrow> byte list" where
  "file_content name fs = (case fs name of None \<Rightarrow> [] | Some old \<Rightarrow> old)"

text \<open>
  What a run of the event loop comes to when the producer builds buffer \<open>B g\<close> in pass \<open>g\<close>
  without raising: every remaining buffer is put in the queue, the queue is emptied in
  order through the codec, and the codes are appended to the output file, after the
  header if the consumer had not started yet. A producer that has nothing left to put,
  with an empty queue, ends the run as it is.
\<close>

definition loop_result ::
  "(nat \<Rightarrow> 'b) \<Rightarrow> ('b \<Rightarrow> byte list) \<Rightarrow> byte list \<Rightarrow> string \<Rightarrow> nat \<Rightarrow> 'b loop_state \<Rightarrow> 'b loop_state" where
  "loop_result B C header out n s =
     (let pending = queue s @ map B [plane_set_id s..<n] in
      if running s = Consumer \<or> pending \<noteq> [] then
        s\<lparr>running := Producer, plane_set_id := n, queue := [], consumer_started := True,
          enqueued := enqueued s @ map B [plane_set_id s..<n],
          compressed := compressed s @ pending,
          disk := (disk s)(out \<mapsto>
                    (if consumer_started s then file_content out (disk s) else header) @
                    concat (map C pending))\<rparr>
      else s)"

text \<open>A volume cut into \<open>n\<close> groups of four planes.\<close>

definition slabs :: "nat \<Rightarrow> 'a list \<Rightarrow> 'a list list" where
  "slabs n volume = map (\<lambda>g. take 4 (drop (g * 4) volume)) [0..<n]"

text \<open>The estimate of the raw size of a volume: four bytes per sample.\<close>

definition cube_bytes :: "('v, 'a) segy \<Rightarrow> int" where
  "cube_bytes f = len (samples f) * len (xlines f) * len (ilines f) * 4"

section \<open>Concrete inputs\<close>

text \<open>
  Stand-ins for the collaborators and small volumes, on which the properties below are
  exercised: a lossless codec that writes the samples (bytes here) in storage order, a
  codec that writes one byte whatever it is given, and a coordinate encoder that writes
  the four low bytes of an integer coordinate.
\<close>

definition flat_codec :: "byte list list list \<Rightarrow> int \<Rightarrow> byte list" where
  "flat_codec data rate = concat (concat data)"


definition le_coord :: "int \<Rightarrow> byte list" where
  "le_coord v = [word_of_int v, word_of_int (v div 256),
                 word_of_int (v div 65536), word_of_int (v div 16777216)]"

definition demo_env :: "(int, byte) collaborators" where
  "demo_env = \<lparr>compress = flat_codec, np_float_to_bytes = le_coord,
                virtual_memory = \<lparr>total = 1000, available = 10\<rparr>\<rparr>"


definition small_memory_env :: "(int, byte) collaborators" where
  "small_memory_env = demo_env\<lparr>virtual_memory := \<lparr>total = 50, available = 10\<rparr>\<rparr>"

text \<open>Five inlines, two crosslines, two samples per trace.\<close>

definition demo_volume :: "(int, byte) segy" where
  "demo_volume =
     \<lparr>ilines = [1, 2, 3, 4, 5], xlines = [10, 12], samples = [0, 4],
      traces = [[[1, 2], [3, 4]], [[5, 6], [7, 8]], [[9, 10], [11, 12]],
                [[13, 14], [15, 16]], [[17, 18], [19, 20]]]\<rparr>"

text \<open>The same volume with one trace of the last inline a sample short.\<close>

definition ragged_volume :: "(int, byte) segy" where
  "ragged_volume =
     demo_volume\<lparr>traces := [[[1, 2], [3, 4]], [[5, 6], [7, 8]], [[9, 10], [11, 12]],
                             [[13, 14], [15, 16]], [[17, 18], [19]]]\<rparr>"


section \<open>Basic facts\<close>

lemma bind_e_simps [simp]: "bind_e (Inr v) k = k v" "bind_e (Inl e) k = Inl e"
  by (simp_all add: bind_e_def)

lemma bind_e_InrE:
  assumes "bind_e m k = Inr y"
  obtains v where "m = Inr v" and "k v = Inr y"
  using assms by (cases m) (simp_all add: bind_e_def)

lemma getitem_Inr: "getitem xs i = Inr v \<longleftrightarrow> i < length xs \<and> v = xs ! i"
  by (auto simp: getitem_def)

lemma segyio_open_Inr: "segyio_open f = Inr g \<longleftrightarrow> regular_geometry f \<and> g = f"
  by (auto simp: segyio_open_def)

lemma to_bytes4_Inr:
  "to_bytes4 n = Inr b \<Longrightarrow> length b = 4 \<and> 0 \<le> n \<and> n < 4294967296"
  by (auto simp: to_bytes4_def split: if_splits)



lemma has_shape2_iff:
  "has_shape2 a (n1, n2) \<longleftrightarrow> length a = n1 \<and> (\<forall>row \<in> set a. length row = n2)"
  by (simp add: has_shape2_def list_all_iff)

lemma has_shape3_iff:
  "has_shape3 a (n0, n1, n2) \<longleftrightarrow> length a = n0 \<and> (\<forall>plane \<in> set a. has_shape2 plane (n1, n2))"
  by (simp add: has_shape3_def list_all_iff)

lemma zip_replicate_right:
  "length xs \<le> n \<Longrightarrow> zip xs (replicate n y) = map (\<lambda>x. (x, y)) xs"
proof (induction xs arbitrary: n)
  case Nil
  then show ?case by simp
next
  case (Cons a xs)
  then obtain k where "n = Suc k" by (cases n) auto
  with Cons show ?case by simp
qed

lemma overlay2_zeros:
  assumes "has_shape2 data (n1, n2)" and "n1 \<le> p1" and "n2 \<le> p2"
  shows "overlay2 n2 data (replicate p1 (replicate p2 0)) = pad_plane p1 p2 data"
proof -
  have "map2 (\<lambda>src row. src @ drop n2 row) data (replicate p1 (replicate p2 0)) =
        map (pad_trace p2) data"
    using assms by (auto simp: zip_replicate_right has_shape2_iff pad_trace_def)
  then show ?thesis using assms
    by (simp add: overlay2_def pad_plane_def has_shape2_iff)
qed

lemma fits2_zeros:
  assumes "has_shape2 data (n1, n2)" and "n1 \<le> p1" and "n2 \<le> p2"
  shows "fits2 n1 n2 data (replicate p1 (replicate p2 0))"
  using assms by (simp add: fits2_def list_all_iff)

lemma assign2_zeros:
  assumes "has_shape2 data (n1, n2)" and "n1 \<le> p1" and "n2 \<le> p2"
  shows "assign2 n1 n2 data (replicate p1 (replicate p2 0)) = Inr (pad_plane p1 p2 data)"
  using assms by (simp add: assign2_def fits2_zeros overlay2_zeros)

lemma overlay3_zeros:
  assumes "has_shape3 data (n0, n1, n2)" and "n0 \<le> p0" and "n1 \<le> p1" and "n2 \<le> p2"
  shows "overlay3 n2 data (replicate p0 (replicate p1 (replicate p2 0))) = pad_volume p0 p1 p2 data"
proof -
  have "map2 (overlay2 n2) data (replicate p0 (replicate p1 (replicate p2 0))) =
        map (pad_plane p1 p2) data"
    using assms by (auto simp: zip_replicate_right has_shape3_iff overlay2_zeros)
  then show ?thesis using assms
    by (simp add: overlay3_def pad_volume_def has_shape3_iff)
qed

lemma fits3_zeros:
  assumes "has_shape3 data (n0, n1, n2)" and "n0 \<le> p0" and "n1 \<le> p1" and "n2 \<le> p2"
  shows "fits3 n0 n1 n2 data (replicate p0 (replicate p1 (replicate p2 0)))"
  using assms
  by (auto simp: fits3_def has_shape3_iff list_all2_conv_all_nth fits2_zeros)

lemma assign3_zeros:
  assumes "has_shape3 data (n0, n1, n2)" and "n0 \<le> p0" and "n1 \<le> p1" and "n2 \<le> p2"
  shows "assign3 n0 n1 n2 data (replicate p0 (replicate p1 (replicate p2 0))) =
         Inr (pad_volume p0 p1 p2 data)"
  using assms by (simp add: assign3_def fits3_zeros overlay3_zeros)

lemma has_shape2_pad_plane:
  assumes "has_shape2 data (n1, n2)" and "n1 \<le> p1" and "n2 \<le> p2"
  shows "has_shape2 (pad_plane p1 p2 data) (p1, p2)"
  using assms by (auto simp: has_shape2_iff pad_plane_def pad_trace_def)

lemma has_shape2_zeros: "has_shape2 (replicate p1 (replicate p2 z)) (p1, p2)"
  by (simp add: has_shape2_iff)

lemma has_shape3_pad_volume:
  assumes "has_shape3 data (n0, n1, n2)" and "n0 \<le> p0" and "n1 \<le> p1" and "n2 \<le> p2"
  shows "has_shape3 (pad_volume p0 p1 p2 data) (p0, p1, p2)"
  using assms
  by (auto simp: has_shape3_iff pad_volume_def has_shape2_pad_plane has_shape2_zeros)

lemma shape3_of_has_shape3:
  assumes "has_shape3 data (n0, n1, n2)" and "0 < n0" and "0 < n1"
  shows "shape3 data = (int n0, int n1, int n2)"
proof -
  from assms obtain plane rest where d: "data = plane # rest" by (cases data) (auto simp: has_shape3_iff)
  with assms have p: "has_shape2 plane (n1, n2)" by (simp add: has_shape3_iff)
  with assms obtain row rows where "plane = row # rows" by (cases plane) (auto simp: has_shape2_iff)
  with p d assms show ?thesis by (simp add: shape3_def shape2_def len_def has_shape2_iff has_shape3_iff)
qed


section \<open>The header\<close>

lemma to_bytes4_ok:
  "0 \<le> n \<Longrightarrow> n < 4294967296 \<Longrightarrow> \<exists>b. to_bytes4 n = Inr b \<and> length b = 4"
  by (simp add: to_bytes4_def)


lemma make_header_ok:
  assumes reg: "regular_geometry f"
    and small: "length (samples f) < 4294967296" "length (xlines f) < 4294967296"
      "length (ilines f) < 4294967296"
    and two: "2 \<le> length (samples f)" "2 \<le> length (xlines f)" "2 \<le> length (ilines f)"
    and bpv: "0 \<le> bpv" "bpv < 4294967296"
  shows "\<exists>buffer. make_header env f bpv = Inr buffer"
proof -
  obtain b0 where b0: "to_bytes4 1 = Inr b0" using to_bytes4_ok [of 1] by auto
  obtain bs where bs: "to_bytes4 (len (samples f)) = Inr bs"
    using to_bytes4_ok [of "len (samples f)"] small by (auto simp: len_def)
  obtain bx where bx: "to_bytes4 (len (xlines f)) = Inr bx"
    using to_bytes4_ok [of "len (xlines f)"] small by (auto simp: len_def)
  obtain bi where bi: "to_bytes4 (len (ilines f)) = Inr bi"
    using to_bytes4_ok [of "len (ilines f)"] small by (auto simp: len_def)
  obtain bb where bb: "to_bytes4 bpv = Inr bb" using to_bytes4_ok [OF bpv] by auto
  have op: "segyio_open f = Inr f" using reg by (simp add: segyio_open_def)
  show ?thesis
    unfolding make_header_def Let_def
    using two by (auto simp: b0 bs bx bi bb op getitem_def)
qed

lemma make_header_irregular:
  "\<not> regular_geometry f \<Longrightarrow> make_header env f bpv = Inl SourceFormatError"
  by (simp add: make_header_def Let_def to_bytes4_def segyio_open_def)



lemma make_header_InrD:
  assumes four: "\<And>v. length (np_float_to_bytes env v) = 4"
    and ok: "make_header env f bpv = Inr buf"
  shows "regular_geometry f \<and> 1 < length (samples f) \<and> 1 < length (xlines f) \<and> 1 < length (ilines f) \<and>
    (\<exists>b0 bs bx bi bb. to_bytes4 1 = Inr b0 \<and> to_bytes4 (len (samples f)) = Inr bs \<and>
       to_bytes4 (len (xlines f)) = Inr bx \<and> to_bytes4 (len (ilines f)) = Inr bi \<and>
       to_bytes4 bpv = Inr bb \<and> buf = header_bytes env f b0 bs bx bi bb)"
proof -
  from ok obtain b0 g bs bx bi s0 x0 i0 s1 x1 i1 bb where
    b0: "to_bytes4 1 = Inr b0" and g: "segyio_open f = Inr g"
    and bs: "to_bytes4 (len (samples g)) = Inr bs"
    and bx: "to_bytes4 (len (xlines g)) = Inr bx"
    and bi: "to_bytes4 (len (ilines g)) = Inr bi"
    and s0: "getitem (samples g) 0 = Inr s0" and x0: "getitem (xlines g) 0 = Inr x0"
    and i0: "getitem (ilines g) 0 = Inr i0"
    and s1: "getitem (samples g) 1 = Inr s1" and x1: "getitem (xlines g) 1 = Inr x1"
    and i1: "getitem (ilines g) 1 = Inr i1"
    and bb: "to_bytes4 bpv = Inr bb"
    and buf: "buf = set_slice 40 44 bb (set_slice 36 40 (np_float_to_bytes env (i1 - i0))
        (set_slice 32 36 (np_float_to_bytes env (x1 - x0))
        (set_slice 28 32 (np_float_to_bytes env (s1 - s0))
        (set_slice 24 28 (np_float_to_bytes env i0)
        (set_slice 20 24 (np_float_to_bytes env x0)
        (set_slice 16 20 (np_float_to_bytes env s0)
        (set_slice 12 16 bi (set_slice 8 12 bx (set_slice 4 8 bs (set_slice 0 4 b0 ([] @ replicate 4096 0)))))))))))"
    unfolding make_header_def Let_def DISK_BLOCK_BYTES_def
    by (elim bind_e_InrE) simp
  have gf: "g = f" and reg: "regular_geometry f" using g by (simp_all add: segyio_open_Inr)
  have l: "length b0 = 4" "length bs = 4" "length bx = 4" "length bi = 4" "length bb = 4"
    using b0 bs bx bi bb to_bytes4_Inr by blast+
  have "buf = header_bytes env f b0 bs bx bi bb"
    unfolding buf using s0 x0 i0 s1 x1 i1
    by (simp add: set_slice_def l four header_bytes_def getitem_Inr gf)
  with reg b0 bs bx bi bb s0 s1 x1 i1 show ?thesis
    by (auto simp: getitem_Inr gf)
qed

lemma demo_geometry: "regular_geometry demo_volume"
  by (simp add: regular_geometry_def has_shape3_def has_shape2_def demo_volume_def)


section \<open>Padding and arrays: facts\<close>

lemma pad_positive:
  assumes "0 < m"
  shows "\<exists>r. pad n m = Inr r \<and> r mod m = 0 \<and> n \<le> r \<and> r < n + m"
proof (cases "n mod m = 0")
  case True
  with assms show ?thesis by (simp add: pad_def)
next
  case False
  have e: "m * (n div m + 1) = n - n mod m + m"
    by (simp add: algebra_simps minus_mod_eq_mult_div [symmetric])
  have "0 \<le> n mod m" "n mod m < m" using assms by simp_all
  with False have "0 < n mod m" by simp
  with \<open>n mod m < m\<close> have "n \<le> n - n mod m + m" "n - n mod m + m < n + m" by simp_all
  moreover have "(m * (n div m + 1)) mod m = 0" by simp
  ultimately show ?thesis using assms False unfolding e [symmetric]
    by (simp add: pad_def)
qed

lemma pad_least:
  assumes "0 < m" and "pad n m = Inr r" and "k mod m = 0" and "n \<le> k"
  shows "r \<le> k"
proof -
  from pad_positive [OF assms(1), of n] assms(2) have r: "r mod m = 0" "r < n + m" by auto
  from r(1) assms(3) have "(k - r) mod m = 0" by (simp add: mod_diff_eq [symmetric] mod_0_imp_dvd dvd_diff)
  show ?thesis
  proof (rule ccontr)
    assume "\<not> r \<le> k"
    then have "0 < r - k" "r - k < m" using r(2) assms(4) by simp_all
    then have "(r - k) mod m = r - k" by simp
    moreover have "(r - k) mod m = 0" using r(1) assms(3)
      by (simp add: mod_0_imp_dvd dvd_diff)
    ultimately show False using \<open>0 < r - k\<close> by simp
  qed
qed

lemma padded_shape_positive:
  assumes "1 \<le> bpv" "bpv \<le> 2048"
  shows "\<exists>p0 p1 p2. padded_shape (d0, d1, d2) bpv = Inr (p0, p1, p2) \<and>
     p0 mod 4 = 0 \<and> p1 mod 4 = 0 \<and> p2 mod (2048 div bpv) = 0 \<and>
     d0 \<le> p0 \<and> d1 \<le> p1 \<and> d2 \<le> p2 \<and> p0 < d0 + 4 \<and> p1 < d1 + 4 \<and> p2 < d2 + 2048 div bpv"
proof -
  have m: "0 < 2048 div bpv" using assms by (simp add: pos_imp_zdiv_pos_iff)
  from pad_positive [of 4 d0] obtain p0 where p0: "pad d0 4 = Inr p0" "p0 mod 4 = 0" "d0 \<le> p0" "p0 < d0 + 4" by auto
  from pad_positive [of 4 d1] obtain p1 where p1: "pad d1 4 = Inr p1" "p1 mod 4 = 0" "d1 \<le> p1" "p1 < d1 + 4" by auto
  from pad_positive [OF m, of d2] obtain p2 where p2: "pad d2 (2048 div bpv) = Inr p2" "p2 mod (2048 div bpv) = 0" "d2 \<le> p2" "p2 < d2 + 2048 div bpv" by auto
  have "floordiv 2048 bpv = Inr (2048 div bpv)" using assms by (simp add: floordiv_def)
  with p0 p1 p2 show ?thesis by (simp add: padded_shape_def)
qed

section \<open>The event loop\<close>

lemma write_file_content: "write_file name bytes fs = fs(name \<mapsto> file_content name fs @ bytes)"
  by (simp add: write_file_def file_content_def split: option.splits)

lemma file_content_upd [simp]: "file_content name (fs(name \<mapsto> bytes)) = bytes"
  by (simp add: file_content_def)

lemma event_loop_final:
  assumes "\<And>g. g < n \<Longrightarrow> P g = Inr (B g)"
    and "plane_set_id s \<le> n"
    and "consumer_started s \<longrightarrow> disk s out \<noteq> None"
  shows "event_loop P C header out n s = loop_result B C header out n s"
  using assms
proof (induction P C header out n s rule: event_loop.induct)
  case (1 P C header out n s)
  note P = "1.prems"(1) and le = "1.prems"(2) and st = "1.prems"(3)
  show ?case
  proof (cases "running s")
    case Producer
    show ?thesis
    proof (cases "plane_set_id s < n")
      case lt: True
      have Pg: "P (plane_set_id s) = Inr (B (plane_set_id s))" using P lt by simp
      have up: "[plane_set_id s..<n] = plane_set_id s # [Suc (plane_set_id s)..<n]"
        using lt by (simp add: upt_conv_Cons)
      show ?thesis
      proof (cases "length (queue s) < 16")
        case True
        let ?s' = "s\<lparr>plane_set_id := plane_set_id s + 1,
                        queue := queue s @ [B (plane_set_id s)],
                        enqueued := enqueued s @ [B (plane_set_id s)]\<rparr>"
        have ih: "event_loop P C header out n ?s' = loop_result B C header out n ?s'"
          using "1.IH"(1) [OF Producer lt Pg True] P lt st by simp
        have "event_loop P C header out n s = event_loop P C header out n ?s'"
          by (subst event_loop.simps) (simp add: Producer lt Pg True)
        also have "\<dots> = loop_result B C header out n s"
          unfolding ih by (simp add: loop_result_def Producer up)
        finally show ?thesis .
      next
        case False
        let ?s' = "s\<lparr>running := Consumer\<rparr>"
        have ih: "event_loop P C header out n ?s' = loop_result B C header out n ?s'"
          using "1.IH"(2) [OF Producer lt Pg False] P le st by simp
        have "event_loop P C header out n s = event_loop P C header out n ?s'"
          by (subst event_loop.simps) (simp add: Producer lt Pg False)
        also have "\<dots> = loop_result B C header out n s"
          unfolding ih by (simp add: loop_result_def Producer up)
        finally show ?thesis .
      qed
    next
      case ge: False
      then have e: "[plane_set_id s..<n] = []" by simp
      show ?thesis
      proof (cases "queue s = []")
        case True
        show ?thesis
          by (subst event_loop.simps) (simp add: Producer ge True loop_result_def e)
      next
        case False
        let ?s' = "s\<lparr>running := Consumer\<rparr>"
        have ih: "event_loop P C header out n ?s' = loop_result B C header out n ?s'"
          using "1.IH"(3) [OF Producer ge False] P le st by simp
        have "event_loop P C header out n s = event_loop P C header out n ?s'"
          by (subst event_loop.simps) (simp add: Producer ge False)
        also have "\<dots> = loop_result B C header out n s"
          unfolding ih by (simp add: loop_result_def Producer e False)
        finally show ?thesis .
      qed
    qed
  next
    case Consumer
    show ?thesis
    proof (cases "consumer_started s")
      case False
      let ?s' = "s\<lparr>consumer_started := True,
                 disk := write_file out header (open_wb out (disk s))\<rparr>"
      have ih: "event_loop P C header out n ?s' = loop_result B C header out n ?s'"
        using "1.IH"(4) [OF Consumer] False P le by (simp add: write_file_content)
      have "event_loop P C header out n s = event_loop P C header out n ?s'"
        by (subst event_loop.simps) (simp add: Consumer False)
      also have "\<dots> = loop_result B C header out n s"
        unfolding ih by (simp add: loop_result_def Consumer False write_file_content open_wb_def)
      finally show ?thesis .
    next
      case started: True
      with st obtain old where old: "disk s out = Some old" by auto
      show ?thesis
      proof (cases "queue s")
        case Nil
        let ?s' = "s\<lparr>running := Producer\<rparr>"
        have ih: "event_loop P C header out n ?s' = loop_result B C header out n ?s'"
          using "1.IH"(5) [OF Consumer _ Nil] started P le st by simp
        have "event_loop P C header out n s = event_loop P C header out n ?s'"
          by (subst event_loop.simps) (simp add: Consumer started Nil)
        also have "\<dots> = loop_result B C header out n s"
        proof (cases "plane_set_id s < n")
          case True
          then show ?thesis unfolding ih
            by (simp add: loop_result_def Consumer started Nil Let_def)
        next
          case False
          with le have "plane_set_id s = n" by simp
          then show ?thesis unfolding ih using old
            by (intro loop_state.equality)
              (simp_all add: loop_result_def Consumer started Nil Let_def file_content_def
                fun_upd_idem)
        qed
        finally show ?thesis .
      next
        case (Cons b rest)
        let ?s' = "s\<lparr>queue := rest, compressed := compressed s @ [b],
                      disk := write_file out (C b) (disk s)\<rparr>"
        have ih: "event_loop P C header out n ?s' = loop_result B C header out n ?s'"
          using "1.IH"(6) [OF Consumer _ Cons] started P le by (simp add: write_file_content)
        have "event_loop P C header out n s = event_loop P C header out n ?s'"
          by (subst event_loop.simps) (simp add: Consumer started Cons)
        also have "\<dots> = loop_result B C header out n s"
          unfolding ih
          by (simp add: loop_result_def Consumer started Cons write_file_content)
        finally show ?thesis .
      qed
    qed
  qed
qed

section \<open>The producer\<close>

lemma for_each_append:
  "for_each body (xs @ ys) s = bind_e (for_each body xs s) (for_each body ys)"
  by (induction xs arbitrary: s) (auto simp: bind_e_def split: sum.splits)

lemma list_update_append_replicate:
  assumes "length xs = j" and "j < m"
  shows "(xs @ replicate (m - j) z)[j := v] = (xs @ [v]) @ replicate (m - Suc j) z"
proof -
  from assms obtain k where k: "m - j = Suc k" by (cases "m - j") auto
  then have "m - Suc j = k" by simp
  with assms k show ?thesis by (simp add: list_update_append)
qed

lemma regular_plane:
  assumes "regular_geometry f" and "k < length (ilines f)"
  shows "iline_at f k = Inr (traces f ! k)"
    and "has_shape2 (traces f ! k) (length (xlines f), length (samples f))"
  using assms
  by (auto simp: regular_geometry_def has_shape3_iff iline_at_def getitem_def)

lemma read_planes:
  fixes f :: "('v, 'a::zero) segy"
  assumes reg: "regular_geometry f"
    and fit: "length (xlines f) \<le> p1" "length (samples f) \<le> p2"
    and j: "j \<le> 4" "g * 4 + j \<le> length (ilines f)"
  shows "for_each
            (\<lambda>buffer i.
               bind_e (iline_at f (g * 4 + i)) (\<lambda>data.
               bind_e (getitem buffer i) (\<lambda>plane.
               bind_e (assign2 (length (xlines f)) (length (samples f)) data plane) (\<lambda>assigned.
                 Inr (buffer[i := assigned])))))
            [0..<j] (replicate 4 (replicate p1 (replicate p2 0))) =
         Inr (map (\<lambda>i. pad_plane p1 p2 (traces f ! (g * 4 + i))) [0..<j] @
              replicate (4 - j) (replicate p1 (replicate p2 0)))"
  using j
proof (induction j)
  case 0
  show ?case by simp
next
  case (Suc j)
  let ?B = "map (\<lambda>i. pad_plane p1 p2 (traces f ! (g * 4 + i))) [0..<j] @
              replicate (4 - j) (replicate p1 (replicate p2 (0::'a)))"
  have k: "g * 4 + j < length (ilines f)" and j4: "j < 4" using Suc.prems by simp_all
  have get: "getitem ?B j = Inr (replicate p1 (replicate p2 0))"
    using j4 by (simp add: getitem_def nth_append)
  have asg: "assign2 (length (xlines f)) (length (samples f)) (traces f ! (g * 4 + j))
               (replicate p1 (replicate p2 0)) = Inr (pad_plane p1 p2 (traces f ! (g * 4 + j)))"
    using assign2_zeros [OF regular_plane(2) [OF reg k] fit] .
  have upd: "?B[j := pad_plane p1 p2 (traces f ! (g * 4 + j))] =
      map (\<lambda>i. pad_plane p1 p2 (traces f ! (g * 4 + i))) [0..<Suc j] @
              replicate (4 - Suc j) (replicate p1 (replicate p2 0))"
    using list_update_append_replicate [of "map (\<lambda>i. pad_plane p1 p2 (traces f ! (g * 4 + i))) [0..<j]" j 4]
      j4 by simp
  have ih: "for_each
            (\<lambda>buffer i.
               bind_e (iline_at f (g * 4 + i)) (\<lambda>data.
               bind_e (getitem buffer i) (\<lambda>plane.
               bind_e (assign2 (length (xlines f)) (length (samples f)) data plane) (\<lambda>assigned.
                 Inr (buffer[i := assigned])))))
            [0..<j] (replicate 4 (replicate p1 (replicate p2 0))) = Inr ?B"
    using Suc.IH Suc.prems by simp
  let ?body = "\<lambda>buffer i.
               bind_e (iline_at f (g * 4 + i)) (\<lambda>data.
               bind_e (getitem buffer i) (\<lambda>plane.
               bind_e (assign2 (length (xlines f)) (length (samples f)) data plane) (\<lambda>assigned.
                 Inr (buffer[i := assigned]))))"
  let ?Z = "replicate 4 (replicate p1 (replicate p2 (0::'a)))"
  have "for_each ?body [0..<Suc j] ?Z = bind_e (for_each ?body [0..<j] ?Z) (for_each ?body [j])"
    unfolding upt_Suc_append [OF le0] for_each_append ..
  also have "\<dots> = ?body ?B j"
    unfolding ih by (simp add: bind_e_def split: sum.splits)
  also have "\<dots> = Inr (?B[j := pad_plane p1 p2 (traces f ! (g * 4 + j))])"
    by (simp only: regular_plane(1) [OF reg k] get asg bind_e_simps)
  finally show ?case unfolding upd .
qed


lemma slab_of_padded_volume:
  fixes volume :: "('a::zero) list list list"
  assumes k: "k \<le> 4" "g * 4 + k \<le> length volume"
    and last: "k < 4 \<longrightarrow> g * 4 + k = length volume"
    and room: "g * 4 + 4 \<le> n0"
  shows "map (\<lambda>i. pad_plane n1 n2 (volume ! (g * 4 + i))) [0..<k] @
           replicate (4 - k) (replicate n1 (replicate n2 0)) =
         take 4 (drop (g * 4) (pad_volume n0 n1 n2 volume))"
proof (rule nth_equalityI)
  show "length (map (\<lambda>i. pad_plane n1 n2 (volume ! (g * 4 + i))) [0..<k] @
           replicate (4 - k) (replicate n1 (replicate n2 (0::'a)))) =
        length (take 4 (drop (g * 4) (pad_volume n0 n1 n2 volume)))"
    using k room by (simp add: pad_volume_def)
next
  fix i
  assume "i < length (map (\<lambda>i. pad_plane n1 n2 (volume ! (g * 4 + i))) [0..<k] @
           replicate (4 - k) (replicate n1 (replicate n2 (0::'a))))"
  then have i: "i < 4" using k by simp
  have len: "g * 4 + i < length (pad_volume n0 n1 n2 volume)"
    using i k room by (simp add: pad_volume_def)
  show "(map (\<lambda>i. pad_plane n1 n2 (volume ! (g * 4 + i))) [0..<k] @
           replicate (4 - k) (replicate n1 (replicate n2 0))) ! i =
        take 4 (drop (g * 4) (pad_volume n0 n1 n2 volume)) ! i"
  proof -
    have sl: "take 4 (drop (g * 4) (pad_volume n0 n1 n2 volume)) ! i =
        pad_volume n0 n1 n2 volume ! (g * 4 + i)"
      using i len by simp
    show ?thesis
    proof (cases "i < k")
      case True
      then have "g * 4 + i < length volume" using k by simp
      then have "pad_volume n0 n1 n2 volume ! (g * 4 + i) = pad_plane n1 n2 (volume ! (g * 4 + i))"
        by (simp add: nth_append pad_volume_def)
      with True show ?thesis unfolding sl by (simp add: nth_append)
    next
      case False
      with i last have "k < 4" and ge: "length volume \<le> g * 4 + i" by auto
      have "g * 4 + i - length volume < n0 - length volume" using ge i room by simp
      with ge have "pad_volume n0 n1 n2 volume ! (g * 4 + i) = replicate n1 (replicate n2 0)"
        by (simp add: nth_append pad_volume_def)
      with False i show ?thesis unfolding sl by (simp add: nth_append)
    qed
  qed
qed

lemma last_group_size:
  fixes n g :: nat
  assumes "g * 4 < n" and "n < g * 4 + 4"
  shows "g * 4 + n mod 4 = n"
proof -
  have "n div 4 = g" using assms by simp
  then show ?thesis using div_mult_mod_eq [of n 4] by simp
qed

lemma read_plane_set_slab:
  fixes f :: "('v, 'a::zero) segy"
  assumes reg: "regular_geometry f"
    and fit: "len (xlines f) \<le> p1" "len (samples f) \<le> p2"
    and p0: "p0 mod 4 = 0" "len (ilines f) \<le> p0" "p0 < len (ilines f) + 4"
    and g: "g < nat (p0 div 4)"
  shows "read_plane_set f (len (ilines f)) (len (xlines f)) (len (samples f)) (p0, p1, p2) g =
         Inr (take 4 (drop (g * 4) (pad_volume (nat p0) (nat p1) (nat p2) (traces f))))"
proof -
  define k where "k = (if (int g + 1) * 4 > len (ilines f) then len (ilines f) mod 4 else 4)"
  have lt: "length (traces f) = length (ilines f)"
    using reg by (simp add: regular_geometry_def has_shape3_iff)
  have room: "g * 4 + 4 \<le> nat p0"
  proof -
    have "p0 = 4 * (p0 div 4)" using p0(1) by (simp add: mod_0_imp_dvd)
    moreover have "int g + 1 \<le> p0 div 4" using g by simp
    ultimately have "int (g * 4 + 4) \<le> p0" by simp
    then show ?thesis by simp
  qed
  have low: "g * 4 < length (ilines f)" using room p0 by (simp add: len_def)
  have k4: "nat k \<le> 4" and kn: "g * 4 + nat k \<le> length (traces f)"
    and last: "nat k < 4 \<longrightarrow> g * 4 + nat k = length (traces f)"
  proof -
    show "nat k \<le> 4" unfolding k_def len_def by (simp add: nat_mod_distrib)
    show "g * 4 + nat k \<le> length (traces f)"
    proof (cases "(int g + 1) * 4 > len (ilines f)")
      case True
      then have "length (ilines f) < g * 4 + 4" by (simp add: len_def)
      from last_group_size [OF low this] True show ?thesis
        by (simp add: k_def lt len_def nat_mod_distrib)
    next
      case False
      then show ?thesis by (simp add: k_def lt len_def)
    qed
    show "nat k < 4 \<longrightarrow> g * 4 + nat k = length (traces f)"
    proof (cases "(int g + 1) * 4 > len (ilines f)")
      case True
      then have "length (ilines f) < g * 4 + 4" by (simp add: len_def)
      from last_group_size [OF low this] True show ?thesis
        by (simp add: k_def lt len_def nat_mod_distrib)
    next
      case False
      then show ?thesis by (simp add: k_def)
    qed
  qed
  have fit': "length (xlines f) \<le> nat p1" "length (samples f) \<le> nat p2"
    using fit by (simp_all add: len_def)
  have z: "np_zeros3 (4, p1, p2) =
      Inr (replicate 4 (replicate (nat p1) (replicate (nat p2) (0::'a))))"
    using fit by (simp add: np_zeros3_def len_def)
  show ?thesis
    unfolding read_plane_set_def
    using read_planes [OF reg fit' k4 kn [unfolded lt]]
      slab_of_padded_volume [OF k4 kn last room, of "nat p1" "nat p2"]
    by (simp add: z Let_def range_py_def k_def len_def)
qed

section \<open>Correlated diagonals\<close>

lemma div_mod_row:
  fixes q r n :: int
  assumes "0 \<le> r" "r < n"
  shows "(q * n + r) div n = q" "(q * n + r) mod n = r"
  using assms by simp_all

lemma diagonal_traces_Inr:
  assumes "0 \<le> get_correlated_diagonal_length l n_il n_xl"
  shows "diagonal_traces l n_il n_xl =
    Inr (map (\<lambda>d. if l \<ge> 0 then (int d + l) * n_xl + int d else int d * n_xl + int d - l)
          [0..<nat (get_correlated_diagonal_length l n_il n_xl)])"
  using assms by (simp add: diagonal_traces_def Let_def range_py_def)

lemma diagonal_position:
  assumes "d < nat (get_correlated_diagonal_length l n_il n_xl)"
  shows "trace_position n_xl (if l \<ge> 0 then (int d + l) * n_xl + int d else int d * n_xl + int d - l)
       = (int d + max l 0, int d + max (- l) 0)"
proof (cases "l \<ge> 0")
  case True
  with assms have "0 \<le> int d" "int d < n_xl"
    by (simp_all add: get_correlated_diagonal_length_def)
  then show ?thesis using True
    by (simp add: trace_position_def div_mod_row)
next
  case False
  with assms have r: "0 \<le> int d - l" "int d - l < n_xl"
    by (simp_all add: get_correlated_diagonal_length_def)
  have "(int d * n_xl + int d - l) div n_xl = int d"
    and "(int d * n_xl + int d - l) mod n_xl = int d - l"
    using div_mod_row [OF r, of "int d"] unfolding add_diff_eq by blast+
  then show ?thesis using False
    by (simp add: trace_position_def)
qed

lemma diagonal_positions:
  assumes "0 \<le> get_correlated_diagonal_length l n_il n_xl"
  shows "\<exists>ts. diagonal_traces l n_il n_xl = Inr ts \<and>
     map (trace_position n_xl) ts =
       map (\<lambda>d. (int d + max l 0, int d + max (- l) 0))
         [0..<nat (get_correlated_diagonal_length l n_il n_xl)]"
  using diagonal_position [of _ l n_il n_xl]
  by (simp add: diagonal_traces_Inr [OF assms] del: max.absorb1 max.absorb2 max.absorb3 max.absorb4)

section \<open>The two conversions\<close>

lemma make_header_Inr_pre:
  assumes "make_header env f bpv = Inr header"
  shows "regular_geometry f" "2 \<le> length (samples f)" "2 \<le> length (xlines f)"
    "2 \<le> length (ilines f)" "0 \<le> bpv" "bpv < 4294967296"
proof -
  from assms obtain g s1 x1 i1 bb where
    g: "segyio_open f = Inr g"
    and s1: "getitem (samples g) 1 = Inr s1" and x1: "getitem (xlines g) 1 = Inr x1"
    and i1: "getitem (ilines g) 1 = Inr i1"
    and bb: "to_bytes4 bpv = Inr bb"
    unfolding make_header_def Let_def
    by (elim bind_e_InrE) simp
  have gf: "g = f" and reg: "regular_geometry f" using g by (simp_all add: segyio_open_Inr)
  show "regular_geometry f" by (rule reg)
  show "2 \<le> length (samples f)" "2 \<le> length (xlines f)" "2 \<le> length (ilines f)"
    using s1 x1 i1 by (simp_all add: getitem_Inr gf)
  show "0 \<le> bpv" "bpv < 4294967296" using to_bytes4_Inr [OF bb] by simp_all
qed

lemma padded_shape_Inr:
  assumes "padded_shape (d0, d1, d2) bpv = Inr (p0, p1, p2)" and "0 \<le> bpv"
  shows "p0 mod 4 = 0" "d0 \<le> p0" "p0 < d0 + 4" "p1 mod 4 = 0" "d1 \<le> p1" "p1 < d1 + 4"
    "p2 mod (2048 div bpv) = 0" "d2 \<le> p2"
proof -
  from assms(1) obtain m where
    p0: "pad d0 4 = Inr p0" and p1: "pad d1 4 = Inr p1"
    and m: "floordiv 2048 bpv = Inr m" and p2: "pad d2 m = Inr p2"
    unfolding padded_shape_def by (auto elim!: bind_e_InrE)
  from m have me: "m = 2048 div bpv" and "bpv \<noteq> 0" by (auto simp: floordiv_def split: if_splits)
  from p2 have "m \<noteq> 0" by (auto simp: pad_def split: if_splits)
  moreover have "0 \<le> m" unfolding me using assms(2) \<open>bpv \<noteq> 0\<close> by (simp add: pos_imp_zdiv_nonneg_iff)
  ultimately have mp: "0 < m" by simp
  from pad_positive [of 4 d0] p0 show "p0 mod 4 = 0" "d0 \<le> p0" "p0 < d0 + 4" by auto
  from pad_positive [of 4 d1] p1 show "p1 mod 4 = 0" "d1 \<le> p1" "p1 < d1 + 4" by auto
  from pad_positive [OF mp, of d2] p2 show "p2 mod (2048 div bpv) = 0" "d2 \<le> p2"
    by (auto simp: me)
qed

lemma produce_setup_regular:
  assumes "regular_geometry f" and "0 < length (ilines f)" and "0 < length (xlines f)"
  shows "produce_setup f bpv =
     bind_e (padded_shape (len (ilines f), len (xlines f), len (samples f)) bpv)
       (\<lambda>padded. Inr (f, len (ilines f), len (xlines f), len (samples f), padded))"
proof -
  have sh: "has_shape2 (traces f ! 0) (length (xlines f), length (samples f))"
    and il: "iline_at f 0 = Inr (traces f ! 0)"
    using regular_plane [OF assms(1,2)] by simp_all
  from sh assms(3) obtain row rows where "traces f ! 0 = row # rows" "length row = length (samples f)"
    by (cases "traces f ! 0") (auto simp: has_shape2_iff)
  then have "snd (shape2 (traces f ! 0)) = len (samples f)"
    by (simp add: shape2_def len_def)
  then show ?thesis using assms(1)
    by (simp add: produce_setup_def segyio_open_def il Let_def)
qed


lemma slabs_length: "length (slabs n volume) = n"
  by (simp add: slabs_def)

lemma slab_length:
  assumes "length volume = n * 4" and "slab \<in> set (slabs n volume)"
  shows "length slab = 4"
proof -
  from assms(2) obtain g where "g < n" "slab = take 4 (drop (g * 4) volume)"
    by (auto simp: slabs_def)
  with assms(1) show ?thesis by simp
qed

lemma run_header_error:
  "make_header env f bpv = Inl e \<Longrightarrow> convert_segy_stream env f out bpv fs = (Some e, fs)"
  by (simp add: convert_segy_stream_def run_def Let_def)


lemma run_result:
  fixes env :: "('v::minus, 'a::zero) collaborators"
  assumes h: "make_header env f bpv = Inr header"
    and ps: "padded_shape (len (ilines f), len (xlines f), len (samples f)) bpv = Inr (p0, p1, p2)"
  shows "run env f out bpv fs =
     \<lparr>running = Producer, plane_set_id = nat (p0 div 4), queue = [], consumer_started = True,
      enqueued = slabs (nat (p0 div 4)) (pad_volume (nat p0) (nat p1) (nat p2) (traces f)),
      compressed = slabs (nat (p0 div 4)) (pad_volume (nat p0) (nat p1) (nat p2) (traces f)),
      disk = fs(out \<mapsto> header @ concat (map (\<lambda>b. compress env b bpv)
                (slabs (nat (p0 div 4)) (pad_volume (nat p0) (nat p1) (nat p2) (traces f))))),
      raised = None\<rparr>"
proof -
  note pre = make_header_Inr_pre [OF h]
  note sh = padded_shape_Inr [OF ps pre(5)]
  let ?n = "nat (p0 div 4)"
  let ?V = "pad_volume (nat p0) (nat p1) (nat p2) (traces f)"
  let ?B = "\<lambda>g. take 4 (drop (g * 4) ?V)"
  let ?idle = "\<lparr>running = Producer, plane_set_id = 0, queue = [], consumer_started = False,
                  enqueued = [], compressed = [], disk = fs, raised = None\<rparr>"
  have ne: "0 < length (ilines f)" "0 < length (xlines f)" using pre(3,4) by linarith+
  have started: "produce_setup f bpv =
      Inr (f, len (ilines f), len (xlines f), len (samples f), (p0, p1, p2))"
    using produce_setup_regular [OF pre(1) ne, of bpv] ps by simp
  have P: "read_plane_set f (len (ilines f)) (len (xlines f)) (len (samples f)) (p0, p1, p2) g =
      Inr (?B g)" if "g < ?n" for g
    using read_plane_set_slab [OF pre(1) sh(5) sh(8) sh(1,2,3) that] .
  have "4 \<le> p0" using sh(1,2) pre(4) by (simp add: len_def) presburger
  then have n: "0 < ?n" by simp
  have "run env f out bpv fs =
      event_loop (read_plane_set f (len (ilines f)) (len (xlines f)) (len (samples f)) (p0, p1, p2))
        (\<lambda>b. compress env b bpv) header out ?n ?idle"
    by (simp add: run_def h started Let_def)
  also have "\<dots> = loop_result ?B (\<lambda>b. compress env b bpv) header out ?n ?idle"
    by (rule event_loop_final) (use P in simp_all)
  also have "\<dots> = \<lparr>running = Producer, plane_set_id = ?n, queue = [], consumer_started = True,
      enqueued = slabs ?n ?V, compressed = slabs ?n ?V,
      disk = fs(out \<mapsto> header @ concat (map (\<lambda>b. compress env b bpv) (slabs ?n ?V))),
      raised = None\<rparr>"
    using n by (simp add: loop_result_def slabs_def Let_def)
  finally show ?thesis .
qed

lemma inmem_irregular:
  "\<not> regular_geometry f \<Longrightarrow> convert_segy_inmem env f out bpv fs = (Some SourceFormatError, fs)"
  by (simp add: convert_segy_inmem_def inmem_prepare_def segyio_open_def)

lemma inmem_guard:
  assumes "regular_geometry f" and "cube_bytes f > total (virtual_memory env)"
  shows "convert_segy_inmem env f out bpv fs = (Some RuntimeError, fs)"
  using assms
  by (simp add: convert_segy_inmem_def inmem_prepare_def segyio_open_def cube_bytes_def Let_def)


lemma inmem_after_header:
  assumes h: "make_header env f bpv = Inr header"
    and mem: "cube_bytes f \<le> total (virtual_memory env)"
  shows "inmem_prepare env f bpv =
     bind_e (padded_shape (len (ilines f), len (xlines f), len (samples f)) bpv) (\<lambda>padded.
     bind_e (np_zeros3 padded) (\<lambda>zeros.
     bind_e (assign3 (length (ilines f)) (length (xlines f)) (length (samples f)) (traces f) zeros)
       (\<lambda>data_padded. Inr (header, compress env data_padded bpv))))"
proof -
  note pre = make_header_Inr_pre [OF h]
  have d: "has_shape3 (traces f) (length (ilines f), length (xlines f), length (samples f))"
    using pre(1) by (simp add: regular_geometry_def)
  have ne: "0 < length (ilines f)" "0 < length (xlines f)" using pre(3,4) by linarith+
  have s3: "shape3 (traces f) = (len (ilines f), len (xlines f), len (samples f))"
    using shape3_of_has_shape3 [OF d ne] by (simp add: len_def)
  show ?thesis
    using pre(1) mem
    by (simp add: inmem_prepare_def segyio_open_def cube_bytes_def Let_def h segyio_tools_cube_def
        s3 len_def)
qed


lemma inmem_result:
  fixes env :: "('v::minus, 'a::zero) collaborators"
  assumes h: "make_header env f bpv = Inr header"
    and mem: "cube_bytes f \<le> total (virtual_memory env)"
    and ps: "padded_shape (len (ilines f), len (xlines f), len (samples f)) bpv = Inr (p0, p1, p2)"
  shows "convert_segy_inmem env f out bpv fs =
     (None, fs(out \<mapsto> header @
        compress env (pad_volume (nat p0) (nat p1) (nat p2) (traces f)) bpv))"
proof -
  note pre = make_header_Inr_pre [OF h]
  note sh = padded_shape_Inr [OF ps pre(5)]
  have d: "has_shape3 (traces f) (length (ilines f), length (xlines f), length (samples f))"
    using pre(1) by (simp add: regular_geometry_def)
  have le: "length (ilines f) \<le> nat p0" "length (xlines f) \<le> nat p1" "length (samples f) \<le> nat p2"
    using sh by (simp_all add: len_def)
  have z: "np_zeros3 (p0, p1, p2) =
      Inr (replicate (nat p0) (replicate (nat p1) (replicate (nat p2) (0::'a))))"
    using sh by (simp add: np_zeros3_def len_def)
  show ?thesis
    by (simp add: convert_segy_inmem_def inmem_after_header [OF h mem] ps z
        assign3_zeros [OF d le] write_file_content open_wb_def)
qed

lemma length_pad_volume:
  "length volume \<le> n0 \<Longrightarrow> length (pad_volume n0 n1 n2 volume) = n0"
  by (simp add: pad_volume_def)

lemma four_groups:
  fixes p0 :: int
  assumes "p0 mod 4 = 0" and "0 \<le> p0"
  shows "nat p0 = nat (p0 div 4) * 4"
proof -
  have "p0 = p0 div 4 * 4" using assms(1) by (simp add: mod_0_imp_dvd)
  moreover have "0 \<le> p0 div 4" using assms(2) by simp
  ultimately show ?thesis by (metis nat_mult_distrib nat_numeral)
qed



lemma padded_volume_groups:
  assumes h: "make_header env f bpv = Inr header"
    and ps: "padded_shape (len (ilines f), len (xlines f), len (samples f)) bpv = Inr (p0, p1, p2)"
  shows "length (pad_volume (nat p0) (nat p1) (nat p2) (traces f)) = nat (p0 div 4) * 4"
    and "0 < nat (p0 div 4)"
proof -
  note pre = make_header_Inr_pre [OF h]
  note sh = padded_shape_Inr [OF ps pre(5)]
  have lt: "length (traces f) = length (ilines f)"
    using pre(1) by (simp add: regular_geometry_def has_shape3_iff)
  have p0: "0 \<le> p0" using sh(2) by (simp add: len_def)
  have "length (pad_volume (nat p0) (nat p1) (nat p2) (traces f)) = nat p0"
    using sh(2) by (intro length_pad_volume) (simp add: lt len_def)
  then show "length (pad_volume (nat p0) (nat p1) (nat p2) (traces f)) = nat (p0 div 4) * 4"
    using four_groups [OF sh(1) p0] by simp
  have "2 \<le> nat p0" using sh(2) pre(4) by (simp add: len_def)
  then show "0 < nat (p0 div 4)" using four_groups [OF sh(1) p0] by simp
qed

lemma demo_header: "\<exists>header. make_header env demo_volume 4 = Inr header \<and> length header = 4096"
  if "\<And>v. length (np_float_to_bytes env v) = 4" for env :: "(int, byte) collaborators"
proof -
  obtain buffer where b: "make_header env demo_volume 4 = Inr buffer"
    using make_header_ok [OF demo_geometry, of 4 env] by (auto simp: demo_volume_def)
  from make_header_InrD [OF that b] obtain b0 bs bx bi bb where
    l: "length b0 = 4" "length bs = 4" "length bx = 4" "length bi = 4" "length bb = 4"
    and buf: "buffer = header_bytes env demo_volume b0 bs bx bi bb"
    using to_bytes4_Inr by blast
  have "length buffer = 4096" by (simp add: buf header_bytes_def l that)
  with b show ?thesis by blast
qed

lemma demo_shape:
  "padded_shape (len (ilines demo_volume), len (xlines demo_volume), len (samples demo_volume)) 4 =
     Inr (8, 4, 512)"
  by (simp add: padded_shape_def pad_def floordiv_def demo_volume_def len_def)

lemma demo_cube_bytes: "cube_bytes demo_volume = 80"
  by (simp add: cube_bytes_def demo_volume_def len_def)




lemma drop_as_map_nth:
  "length xs = a + k \<Longrightarrow> drop a xs = map (\<lambda>i. xs ! (a + i)) [0..<k]"
  by (rule nth_equalityI) simp_all

lemma has_shape3_slab:
  assumes v: "has_shape3 volume (n * 4, n1, n2)" and s: "slab \<in> set (slabs n volume)"
  shows "has_shape3 slab (4, n1, n2)"
proof -
  from v have len: "length volume = n * 4" by (simp add: has_shape3_iff)
  from s obtain g where "g < n" and sl: "slab = take 4 (drop (g * 4) volume)"
    by (auto simp: slabs_def)
  have "set slab \<subseteq> set volume" unfolding sl
    by (meson set_take_subset set_drop_subset subset_trans)
  with v slab_length [OF len s] show ?thesis by (auto simp: has_shape3_iff)
qed

section \<open>The claims\<close>

text \<open>
  Claim C2. For every position \<open>d\<close> with \<open>0 \<le> d < diagonal_length(l, I, X)\<close>, the \<open>d\<close>-th
  trace the loop reads lies at inline \<open>d + max(l, 0)\<close> and crossline \<open>d + max(-l, 0)\<close>, the
  traces being read in increasing order of \<open>d\<close>; for \<open>I = 10\<close>, \<open>X = 6\<close>, \<open>l = 2\<close> the
  positions are (2,0), (3,1), (4,2), (5,3), (6,4), (7,5).
\<close>

theorem diagonal_coordinates:
  assumes "0 \<le> d" and "d < get_correlated_diagonal_length l n_il n_xl"
  shows "(\<exists>ts. diagonal_traces l n_il n_xl = Inr ts \<and>
            int (length ts) = get_correlated_diagonal_length l n_il n_xl \<and>
            trace_position n_xl (ts ! nat d) = (d + max l 0, d + max (- l) 0)) \<and>
         map_sum id (map (trace_position 6)) (diagonal_traces 2 10 6) =
           Inr [(2, 0), (3, 1), (4, 2), (5, 3), (6, 4), (7, 5)]"
proof
  have n0: "0 \<le> get_correlated_diagonal_length l n_il n_xl" using assms by simp
  have dn: "nat d < nat (get_correlated_diagonal_length l n_il n_xl)" using assms by simp
  show "\<exists>ts. diagonal_traces l n_il n_xl = Inr ts \<and>
            int (length ts) = get_correlated_diagonal_length l n_il n_xl \<and>
            trace_position n_xl (ts ! nat d) = (d + max l 0, d + max (- l) 0)"
  proof -
    have d: "int (nat d) = d" using assms(1) by simp
    show ?thesis
      using diagonal_position [OF dn] dn n0 assms(1) unfolding d
      by (auto simp: diagonal_traces_Inr [OF n0] d max_def split: if_splits)
  qed
  show "map_sum id (map (trace_position 6)) (diagonal_traces 2 10 6) =
           Inr [(2, 0), (3, 1), (4, 2), (5, 3), (6, 4), (7, 5)]"
    by (simp add: diagonal_traces_def get_correlated_diagonal_length_def range_py_def
        trace_position_def upt_conv_Cons)
qed

theorem diagonal_coordinates_witness:
  "(0::int) \<le> 1 \<and> 1 < get_correlated_diagonal_length (-3) 10 6 \<and>
   (\<exists>ts. diagonal_traces (-3) 10 6 = Inr ts \<and> trace_position 6 (ts ! nat 1) = (1, 4))"
proof -
  have h: "(1::int) < get_correlated_diagonal_length (-3) 10 6"
    by (simp add: get_correlated_diagonal_length_def)
  from diagonal_coordinates [of 1 "-3" 10 6, OF _ h] h show ?thesis by auto
qed

text \<open>
  Claim C3. For \<open>I \<ge> 1\<close>, \<open>X \<ge> 1\<close> and a line index \<open>l\<close> in \<open>[-(X-1), I-1]\<close>, the diagonal
  length is \<open>min(I - l, X)\<close> when \<open>l \<ge> 0\<close> and \<open>min(I, X + l)\<close> when \<open>l < 0\<close>; it is the
  number of positions the loop visits, which are exactly the grid points with
  \<open>inline - crossline = l\<close>, each visited once; and it is at least 1, and equal to 1 at
  the boundary indices \<open>l = I - 1\<close> and \<open>l = -(X - 1)\<close>.
\<close>

theorem diagonal_length_law:
  assumes "1 \<le> n_il" and "1 \<le> n_xl" and "- (n_xl - 1) \<le> l" and "l \<le> n_il - 1"
  shows "get_correlated_diagonal_length l n_il n_xl =
           (if l \<ge> 0 then min (n_il - l) n_xl else min n_il (n_xl + l)) \<and>
         1 \<le> get_correlated_diagonal_length l n_il n_xl \<and>
         get_correlated_diagonal_length (n_il - 1) n_il n_xl = 1 \<and>
         get_correlated_diagonal_length (- (n_xl - 1)) n_il n_xl = 1 \<and>
         (\<exists>ts. diagonal_traces l n_il n_xl = Inr ts \<and>
            int (length ts) = get_correlated_diagonal_length l n_il n_xl \<and>
            distinct (map (trace_position n_xl) ts) \<and>
            set (map (trace_position n_xl) ts) =
              {(i, x). 0 \<le> i \<and> i < n_il \<and> 0 \<le> x \<and> x < n_xl \<and> i - x = l})"
proof -
  let ?n = "get_correlated_diagonal_length l n_il n_xl"
  have n1: "1 \<le> ?n" using assms by (auto simp: get_correlated_diagonal_length_def)
  then have n0: "0 \<le> ?n" by simp
  from diagonal_positions [OF n0] obtain ts where
    ts: "diagonal_traces l n_il n_xl = Inr ts"
    and pos: "map (trace_position n_xl) ts =
       map (\<lambda>d. (int d + max l 0, int d + max (- l) 0)) [0..<nat ?n]" by blast
  have len: "int (length ts) = ?n"
    using arg_cong [OF pos, of length] n0 by simp
  have dist: "distinct (map (trace_position n_xl) ts)"
    unfolding pos by (simp add: distinct_map inj_on_def)
  have "set (map (trace_position n_xl) ts) =
      {(i, x). 0 \<le> i \<and> i < n_il \<and> 0 \<le> x \<and> x < n_xl \<and> i - x = l}" (is "?L = ?R")
  proof (intro set_eqI iffI)
    fix p assume "p \<in> ?L"
    then obtain d where "d < nat ?n" "p = (int d + max l 0, int d + max (- l) 0)"
      unfolding pos by auto
    then show "p \<in> ?R"
      by (auto simp: get_correlated_diagonal_length_def split: if_splits)
  next
    fix p assume "p \<in> ?R"
    then obtain i x where p: "p = (i, x)" and g: "0 \<le> i" "i < n_il" "0 \<le> x" "x < n_xl" "i - x = l"
      by auto
    define d where "d = nat (min i x)"
    have "d < nat ?n" using g
      by (auto simp: d_def get_correlated_diagonal_length_def split: if_splits)
    moreover have "p = (int d + max l 0, int d + max (- l) 0)"
      using g by (auto simp: d_def p)
    ultimately show "p \<in> ?L" unfolding pos by auto
  qed
  with n1 ts len dist show ?thesis
    using assms(1,2) by (auto simp: get_correlated_diagonal_length_def)
qed

theorem diagonal_length_law_witness:
  "get_correlated_diagonal_length 4 10 6 = 6 \<and> get_correlated_diagonal_length 9 10 6 = 1 \<and>
   get_correlated_diagonal_length (-5) 10 6 = 1 \<and>
   (\<exists>ts. diagonal_traces 4 10 6 = Inr ts \<and> int (length ts) = 6)"
  using diagonal_length_law [of 10 6 4]
  by (auto simp: get_correlated_diagonal_length_def)










text \<open>
  Claim C6, as amended. For every source volume the reader opens whose estimated raw size
  (inline count times crossline count times sample count times 4 bytes) exceeds the
  total physical memory of the machine, whole-volume conversion raises RuntimeError (the
  spec's InsufficientMemory) before the volume is read, and the files are left as they
  were.
\<close>

theorem memory_guard_total:
  assumes "regular_geometry in_file"
    and "cube_bytes in_file > total (virtual_memory env)"
  shows "convert_segy_inmem env in_file out_filename bits_per_voxel fs = (Some RuntimeError, fs)"
  using assms by (rule inmem_guard)

theorem memory_guard_total_witness:
  "regular_geometry demo_volume \<and>
   cube_bytes demo_volume > total (virtual_memory small_memory_env) \<and>
   convert_segy_inmem small_memory_env demo_volume ''out.sz'' 4 Map.empty =
     (Some RuntimeError, Map.empty)"
proof -
  have m: "cube_bytes demo_volume > total (virtual_memory small_memory_env)"
    by (simp add: demo_cube_bytes small_memory_env_def)
  from memory_guard_total [OF demo_geometry m] demo_geometry m show ?thesis by simp
qed

text \<open>
  Claim C6 as stated fails: the guard reads the total memory, not the available memory.
  A volume of 80 bytes on a machine with 10 bytes available of 1000 in total is
  converted, and the output file is written.
\<close>

theorem memory_guard_available_counterexample:
  "cube_bytes demo_volume > available (virtual_memory demo_env) \<and>
   fst (convert_segy_inmem demo_env demo_volume ''out.sz'' 4 Map.empty) = None \<and>
   snd (convert_segy_inmem demo_env demo_volume ''out.sz'' 4 Map.empty) ''out.sz'' \<noteq> None"
proof -
  have m: "cube_bytes demo_volume \<le> total (virtual_memory demo_env)"
    by (simp add: demo_cube_bytes demo_env_def)
  obtain header where h: "make_header demo_env demo_volume 4 = Inr header"
    using demo_header [of demo_env] by (auto simp: demo_env_def le_coord_def)
  show ?thesis
    by (simp add: inmem_result [OF h m demo_shape] demo_cube_bytes) (simp add: demo_env_def)
qed




text \<open>
  Claim C8. For every source volume whose trace geometry is inconsistent, both the
  whole-volume and the streaming strategy end with SourceFormatError, reported by the
  reader when the file is opened, and the files are left as they were.
\<close>

theorem inconsistent_geometry_fails:
  assumes "\<not> regular_geometry in_file"
  shows "convert_segy_inmem env in_file out_filename bits_per_voxel fs =
           (Some SourceFormatError, fs) \<and>
         convert_segy_stream env in_file out_filename bits_per_voxel fs =
           (Some SourceFormatError, fs)"
  using assms
  by (simp add: inmem_irregular run_header_error [OF make_header_irregular])

theorem inconsistent_geometry_fails_witness:
  "\<not> regular_geometry ragged_volume \<and>
   convert_segy_inmem demo_env ragged_volume ''out.sz'' 4 Map.empty =
     (Some SourceFormatError, Map.empty) \<and>
   convert_segy_stream demo_env ragged_volume ''out.sz'' 4 Map.empty =
     (Some SourceFormatError, Map.empty)"
proof -
  have r: "\<not> regular_geometry ragged_volume"
    by (simp add: regular_geometry_def has_shape3_def has_shape2_def ragged_volume_def
        demo_volume_def)
  from inconsistent_geometry_fails [OF r] r show ?thesis by simp
qed

text \<open>
  Claim C10. In streaming mode, for a volume the reader opens with at least two values on
  every axis and a \<open>bits_per_voxel\<close> from 1 to 2048, the run ends without an exception;
  the buffers the producer put in the queue are the buffers given to the codec, in the
  same order; there are exactly \<open>I' / 4\<close> of them, \<open>I'\<close> being the padded inline count;
  each has the shape \<open>(4, X', S')\<close>; and when the inline count is not a multiple of 4 the
  last buffer holds the remaining \<open>I mod 4\<close> inlines, padded, followed by planes of zeros.
\<close>

theorem streamed_buffers:
  fixes env :: "('v::minus, 'a::zero) collaborators"
  assumes reg: "regular_geometry in_file"
    and two: "2 \<le> length (samples in_file)" "2 \<le> length (xlines in_file)"
      "2 \<le> length (ilines in_file)"
    and small: "length (samples in_file) < 4294967296" "length (xlines in_file) < 4294967296"
      "length (ilines in_file) < 4294967296"
    and rate: "1 \<le> bits_per_voxel" "bits_per_voxel \<le> 2048"
  shows "\<exists>I' X' S' buffers.
           padded_shape (len (ilines in_file), len (xlines in_file), len (samples in_file))
             bits_per_voxel = Inr (I', X', S') \<and>
           raised (run env in_file out_filename bits_per_voxel fs) = None \<and>
           enqueued (run env in_file out_filename bits_per_voxel fs) = buffers \<and>
           compressed (run env in_file out_filename bits_per_voxel fs) = buffers \<and>
           int (length buffers) = I' div 4 \<and> I' mod 4 = 0 \<and>
           (\<forall>buffer \<in> set buffers. has_shape3 buffer (4, nat X', nat S')) \<and>
           (length (ilines in_file) mod 4 \<noteq> 0 \<longrightarrow>
              last buffers =
                map (pad_plane (nat X') (nat S'))
                  (drop (length (ilines in_file) - length (ilines in_file) mod 4) (traces in_file)) @
                replicate (4 - length (ilines in_file) mod 4)
                  (replicate (nat X') (replicate (nat S') 0)))"
proof -
  let ?nI = "length (ilines in_file)"
  obtain header where h: "make_header env in_file bits_per_voxel = Inr header"
    using make_header_ok [OF reg small two, of bits_per_voxel env] rate by auto
  obtain p0 p1 p2 where
    ps: "padded_shape (len (ilines in_file), len (xlines in_file), len (samples in_file))
           bits_per_voxel = Inr (p0, p1, p2)"
    using padded_shape_positive [OF rate] by blast
  note pre = make_header_Inr_pre [OF h]
  note sh = padded_shape_Inr [OF ps pre(5)]
  let ?n = "nat (p0 div 4)"
  let ?V = "pad_volume (nat p0) (nat p1) (nat p2) (traces in_file)"
  note r = run_result [OF h ps, of out_filename fs]
  note len = padded_volume_groups [OF h ps]
  have d: "has_shape3 (traces in_file)
      (length (ilines in_file), length (xlines in_file), length (samples in_file))"
    using reg by (simp add: regular_geometry_def)
  have lt: "length (traces in_file) = ?nI" using d by (simp add: has_shape3_iff)
  have le: "?nI \<le> nat p0" "length (xlines in_file) \<le> nat p1" "length (samples in_file) \<le> nat p2"
    using sh by (simp_all add: len_def)
  have p0n: "nat p0 = ?n * 4" using len(1) length_pad_volume [of "traces in_file" "nat p0"] le(1) lt
    by simp
  have V: "has_shape3 ?V (?n * 4, nat p1, nat p2)"
    using has_shape3_pad_volume [OF d le] unfolding p0n .
  have count: "int (length (slabs ?n ?V)) = p0 div 4"
    using sh(2) by (simp add: slabs_length len_def)
  have shapes: "\<forall>buffer \<in> set (slabs ?n ?V). has_shape3 buffer (4, nat p1, nat p2)"
    using has_shape3_slab [OF V] by blast
  have lastb: "last (slabs ?n ?V) =
      map (pad_plane (nat p1) (nat p2)) (drop (?nI - ?nI mod 4) (traces in_file)) @
      replicate (4 - ?nI mod 4) (replicate (nat p1) (replicate (nat p2) 0))"
    if rem: "?nI mod 4 \<noteq> 0"
  proof -
    obtain g where n: "?n = Suc g" using len(2) by (cases ?n) auto
    have up: "nat p0 < ?nI + 4" using sh(3) by (simp add: len_def)
    have "?nI \<noteq> nat p0" using rem p0n by auto
    with le(1) up have lo: "g * 4 < ?nI" and hi: "?nI < g * 4 + 4"
      unfolding p0n n by simp_all
    have split: "g * 4 + ?nI mod 4 = ?nI" by (rule last_group_size [OF lo hi])
    then have g4: "?nI - ?nI mod 4 = g * 4" by simp
    have k: "?nI mod 4 \<le> 4" "g * 4 + ?nI mod 4 \<le> length (traces in_file)"
      "?nI mod 4 < 4 \<longrightarrow> g * 4 + ?nI mod 4 = length (traces in_file)"
      using split by (simp_all add: lt)
    have room: "g * 4 + 4 \<le> nat p0" unfolding p0n n by simp
    have "last (slabs ?n ?V) = take 4 (drop (g * 4) ?V)"
      unfolding n by (simp add: slabs_def)
    also have "\<dots> = map (\<lambda>i. pad_plane (nat p1) (nat p2) (traces in_file ! (g * 4 + i)))
          [0..<?nI mod 4] @
        replicate (4 - ?nI mod 4) (replicate (nat p1) (replicate (nat p2) 0))"
      using slab_of_padded_volume [OF k room, of "nat p1" "nat p2"] by simp
    also have "map (\<lambda>i. pad_plane (nat p1) (nat p2) (traces in_file ! (g * 4 + i))) [0..<?nI mod 4]
        = map (pad_plane (nat p1) (nat p2)) (drop (g * 4) (traces in_file))"
      using drop_as_map_nth [of "traces in_file" "g * 4" "?nI mod 4"] split lt
      by (simp add: comp_def)
    finally show ?thesis unfolding g4 .
  qed
  have e1: "raised (run env in_file out_filename bits_per_voxel fs) = None"
    and e2: "enqueued (run env in_file out_filename bits_per_voxel fs) = slabs ?n ?V"
    and e3: "compressed (run env in_file out_filename bits_per_voxel fs) = slabs ?n ?V"
    unfolding r by simp_all
  have lastb': "length (ilines in_file) mod 4 \<noteq> 0 \<longrightarrow>
              last (slabs ?n ?V) =
                map (pad_plane (nat p1) (nat p2))
                  (drop (length (ilines in_file) - length (ilines in_file) mod 4) (traces in_file)) @
                replicate (4 - length (ilines in_file) mod 4)
                  (replicate (nat p1) (replicate (nat p2) 0))"
    using lastb by (rule impI)
  from ps e1 e2 e3 count sh(1) shapes lastb' have all:
    "padded_shape (len (ilines in_file), len (xlines in_file), len (samples in_file))
             bits_per_voxel = Inr (p0, p1, p2) \<and>
           raised (run env in_file out_filename bits_per_voxel fs) = None \<and>
           enqueued (run env in_file out_filename bits_per_voxel fs) = slabs ?n ?V \<and>
           compressed (run env in_file out_filename bits_per_voxel fs) = slabs ?n ?V \<and>
           int (length (slabs ?n ?V)) = p0 div 4 \<and> p0 mod 4 = 0 \<and>
           (\<forall>buffer \<in> set (slabs ?n ?V). has_shape3 buffer (4, nat p1, nat p2)) \<and>
           (length (ilines in_file) mod 4 \<noteq> 0 \<longrightarrow>
              last (slabs ?n ?V) =
                map (pad_plane (nat p1) (nat p2))
                  (drop (length (ilines in_file) - length (ilines in_file) mod 4) (traces in_file)) @
                replicate (4 - length (ilines in_file) mod 4)
                  (replicate (nat p1) (replicate (nat p2) 0)))"
    by (intro conjI)
  show ?thesis
    by (rule exI [of _ p0], rule exI [of _ p1], rule exI [of _ p2],
        rule exI [of _ "slabs ?n ?V"], rule all)
qed

theorem streamed_buffers_witness:
  "regular_geometry demo_volume \<and> length (ilines demo_volume) mod 4 \<noteq> 0 \<and>
   (\<exists>buffers.
      enqueued (run demo_env demo_volume ''out.sz'' 1024 Map.empty) = buffers \<and>
      compressed (run demo_env demo_volume ''out.sz'' 1024 Map.empty) = buffers \<and>
      length buffers = 2 \<and>
      (\<forall>buffer \<in> set buffers. has_shape3 buffer (4, 4, 2)) \<and>
      last buffers = [[[17, 18], [19, 20], [0, 0], [0, 0]], [[0, 0], [0, 0], [0, 0], [0, 0]],
                      [[0, 0], [0, 0], [0, 0], [0, 0]], [[0, 0], [0, 0], [0, 0], [0, 0]]])"
proof -
  have s: "padded_shape (len (ilines demo_volume), len (xlines demo_volume),
      len (samples demo_volume)) 1024 = Inr (8, 4, 2)"
    by (simp add: padded_shape_def pad_def floordiv_def demo_volume_def len_def)
  have t: "length (ilines demo_volume) = 5" "length (xlines demo_volume) = 2"
    "length (samples demo_volume) = 2"
    "drop 4 (traces demo_volume) = [[[17, 18], [19, 20]]]"
    by (simp_all add: demo_volume_def)
  have r3: "replicate 3 x = [x, x, x]" and r2: "replicate 2 x = [x, x]"
    and r4: "replicate 4 x = [x, x, x, x]" for x :: 'b
    by (simp_all add: numeral_3_eq_3 numeral_2_eq_2 eval_nat_numeral)
  from streamed_buffers [OF demo_geometry, of 1024 demo_env "''out.sz''" Map.empty]
  show ?thesis
    using demo_geometry
    by (simp add: s t pad_plane_def pad_trace_def r3 r2 r4)
qed

end
